theory Spec2Isabelle
  imports Main
begin

section \<open>Data model (types.ts)\<close>

text \<open>
  \<^verbatim>\<open>export type ReviewStatus = 'pending' | 'drafted' | 'replied';\<close>
\<close>

datatype ReviewStatus = pending | drafted | replied

text \<open>
  \<^verbatim>\<open>interface GoogleReview\<close>. The field \<^verbatim>\<open>id\<close> is written \<open>id'\<close> (HOL has a
  constant \<open>id\<close>). The optional fields \<^verbatim>\<open>reviewerAvatar?\<close> and \<^verbatim>\<open>replyContent?\<close> are
  options: \<open>None\<close> is JavaScript's \<^verbatim>\<open>undefined\<close>.
\<close>

record GoogleReview =
  id' :: string
  reviewId :: string
  reviewerName :: string
  reviewerAvatar :: "string option"
  rating :: int
  content :: string
  date :: string
  status :: ReviewStatus
  replyContent :: "string option"

section \<open>The review platform's payload (googleBusinessService.ts)\<close>

text \<open>
  The source reads each element of \<^verbatim>\<open>data.reviews\<close> as \<^verbatim>\<open>any\<close>. The model gives it
  the fields the mapping reads. Fields the source treats as possibly missing
  (\<^verbatim>\<open>r.comment || ...\<close>, \<^verbatim>\<open>r.reviewReply ? ... : ...\<close> and the avatar) are options.
  The reply's comment is copied unchecked into the optional \<^verbatim>\<open>replyContent\<close>, so it
  is an option too: a reply object without a comment gives \<^verbatim>\<open>undefined\<close>.
\<close>

datatype ReviewReply = ReviewReply (reply_comment: "string option")

record Reviewer =
  displayName :: string
  profilePhotoUrl :: "string option"

record ApiReview =
  name :: string
  api_reviewId :: string
  reviewer :: Reviewer
  starRating :: string
  comment :: "string option"
  createTime :: string
  reviewReply :: "ReviewReply option"

text \<open>
  What \<^verbatim>\<open>await fetch(...)\<close> followed by \<^verbatim>\<open>await response.json()\<close> can give: the fetch
  rejects with an error (its message), or resolves to a response with the flag
  \<^verbatim>\<open>ok\<close> whose \<^verbatim>\<open>json()\<close> either rejects or yields an object, of which the code reads
  only \<^verbatim>\<open>reviews\<close>.
\<close>

datatype JsonBody = JsonError string | JsonData "ApiReview list option"

record Response =
  ok :: bool
  json :: JsonBody

datatype FetchOutcome = FetchRejected string | FetchResolved Response

text \<open>
  \<^verbatim>\<open>a || b\<close> on a possibly undefined string: \<^verbatim>\<open>undefined\<close> and the empty
  string are falsy.
\<close>

definition or_default :: "string option \<Rightarrow> string \<Rightarrow> string" where
  "or_default a b = (case a of None \<Rightarrow> b | Some s \<Rightarrow> if s = [] then b else s)"

text \<open>\<^verbatim>\<open>Array.prototype.indexOf\<close>: the first index holding the value, or -1.\<close>

fun indexOf :: "'a list \<Rightarrow> 'a \<Rightarrow> int" where
  "indexOf [] x = - 1"
| "indexOf (y # ys) x =
     (if y = x then 0 else (let i = indexOf ys x in if i < 0 then - 1 else i + 1))"

definition star_scale :: "string list" where
  "star_scale = [''ZERO'', ''ONE'', ''TWO'', ''THREE'', ''FOUR'', ''FIVE'']"

text \<open>
  The arrow function of \<^verbatim>\<open>data.reviews.map\<close> (lines 83-93). The display date
  \<^verbatim>\<open>new Date(r.createTime).toLocaleDateString()\<close> depends on the browser's locale and
  is the parameter \<open>fmt\<close>.
\<close>

definition toGoogleReview :: "(string \<Rightarrow> string) \<Rightarrow> ApiReview \<Rightarrow> GoogleReview" where
  "toGoogleReview fmt r =
     \<lparr> id' = name r,
       reviewId = api_reviewId r,
       reviewerName = displayName (reviewer r),
       reviewerAvatar = profilePhotoUrl (reviewer r),
       rating = indexOf star_scale (starRating r),
       content = or_default (comment r) ''(No content)'',
       date = fmt (createTime r),
       status = (case reviewReply r of Some _ \<Rightarrow> replied | None \<Rightarrow> pending),
       replyContent = (case reviewReply r of Some rr \<Rightarrow> reply_comment rr | None \<Rightarrow> None) \<rparr>"

text \<open>
  \<^verbatim>\<open>fetchGoogleReviews\<close>: a thrown \<^verbatim>\<open>Error\<close> is \<open>Inl\<close> of its message. The access
  token and the location name only build the request; the request's outcome is
  the argument.
\<close>

definition fetchGoogleReviews :: "(string \<Rightarrow> string) \<Rightarrow> FetchOutcome \<Rightarrow> string + GoogleReview list" where
  "fetchGoogleReviews fmt outcome =
     (case outcome of
        FetchRejected msg \<Rightarrow> Inl msg
      | FetchResolved response \<Rightarrow>
          if \<not> ok response then
            (case json response of
               JsonError msg \<Rightarrow> Inl msg
             | JsonData _ \<Rightarrow> Inl ''Failed to fetch reviews. Ensure API is enabled in GCP.'')
          else
            (case json response of
               JsonError msg \<Rightarrow> Inl msg
             | JsonData None \<Rightarrow> Inr []
             | JsonData (Some rs) \<Rightarrow> Inr (map (toGoogleReview fmt) rs)))"

text \<open>\<^verbatim>\<open>postReplyToGoogle\<close>: resolves to \<^verbatim>\<open>true\<close> or throws.\<close>

definition postReplyToGoogle :: "FetchOutcome \<Rightarrow> string + bool" where
  "postReplyToGoogle outcome =
     (case outcome of
        FetchRejected msg \<Rightarrow> Inl msg
      | FetchResolved response \<Rightarrow>
          if \<not> ok response then
            (case json response of
               JsonError msg \<Rightarrow> Inl msg
             | JsonData _ \<Rightarrow> Inl ''Failed to post reply.'')
          else Inr True)"

section \<open>The reply generator (geminiService.ts)\<close>

text \<open>
  What \<^verbatim>\<open>await ai.models.generateContent(...)\<close> can give: it rejects, or resolves to
  a response whose \<^verbatim>\<open>text\<close> may be undefined. The prompt built from the parameters
  only feeds that call; the call's outcome is the argument.
\<close>

datatype AiOutcome = AiRejected | AiResponse "string option"

definition generateReviewReply :: "AiOutcome \<Rightarrow> string + string" where
  "generateReviewReply outcome =
     (case outcome of
        AiResponse txt \<Rightarrow> Inr (or_default txt ''Could not generate a reply. Please try again.'')
      | AiRejected \<Rightarrow> Inl ''Failed to generate reply. Please check your connection or API limit.'')"

section \<open>The dashboard's state and operations (Dashboard.tsx)\<close>

text \<open>
  The effects the operations have beyond the four state cells: the calls to the
  two services, the writes of \<^verbatim>\<open>processingId\<close>, and \<^verbatim>\<open>alert\<close>. They are appended
  to \<open>trace\<close> in the order the code performs them.
\<close>

datatype Effect =
    SetProcessing "string option"
  | GenerateCall string
  | PostCall string string
  | Alert string

record Dashboard =
  reviews :: "GoogleReview list"
  loading :: bool
  error :: "string option"
  processingId :: "string option"
  trace :: "Effect list"

definition loadReviews :: "(string \<Rightarrow> string) \<Rightarrow> FetchOutcome \<Rightarrow> Dashboard \<Rightarrow> Dashboard" where
  "loadReviews fmt outcome st =
     (let st1 = st\<lparr>loading := True, error := None\<rparr> in
      case fetchGoogleReviews fmt outcome of
        Inr data \<Rightarrow> st1\<lparr>reviews := data, loading := False\<rparr>
      | Inl msg \<Rightarrow>
          st1\<lparr>error := Some (if msg \<noteq> [] then msg
                              else ''Failed to load reviews. Check console for details.''),
               loading := False\<rparr>)"

definition generateReply :: "AiOutcome \<Rightarrow> GoogleReview \<Rightarrow> Dashboard \<Rightarrow> Dashboard" where
  "generateReply outcome review st =
     (let st1 = st\<lparr>processingId := Some (id' review),
                    trace := trace st @ [SetProcessing (Some (id' review)), GenerateCall (id' review)]\<rparr>;
          st2 = (case generateReviewReply outcome of
                   Inr reply \<Rightarrow>
                     st1\<lparr>reviews := map (\<lambda>r. if id' r = id' review
                                              then r\<lparr>status := drafted, replyContent := Some reply\<rparr>
                                              else r) (reviews st1)\<rparr>
                 | Inl e \<Rightarrow> st1\<lparr>trace := trace st1 @ [Alert ''AI Generation failed.'']\<rparr>)
      in st2\<lparr>processingId := None, trace := trace st2 @ [SetProcessing None]\<rparr>)"

text \<open>
  \<^verbatim>\<open>for (const review of pendingReviews) { await generateReply(review); }\<close>. The
  generator's outcome at the \<open>k\<close>-th call of the batch is \<open>ai k\<close>.
\<close>

fun generateEach :: "(nat \<Rightarrow> AiOutcome) \<Rightarrow> nat \<Rightarrow> GoogleReview list \<Rightarrow> Dashboard \<Rightarrow> Dashboard" where
  "generateEach ai k [] st = st"
| "generateEach ai k (review # rest) st = generateEach ai (Suc k) rest (generateReply (ai k) review st)"

definition autoGenerateAll :: "(nat \<Rightarrow> AiOutcome) \<Rightarrow> Dashboard \<Rightarrow> Dashboard" where
  "autoGenerateAll ai st =
     (let pendingReviews = filter (\<lambda>r. status r = pending) (reviews st)
      in generateEach ai 0 pendingReviews st)"

definition postReply :: "FetchOutcome \<Rightarrow> string \<Rightarrow> string \<Rightarrow> Dashboard \<Rightarrow> Dashboard" where
  "postReply outcome reviewId' content' st =
     (let st1 = st\<lparr>processingId := Some reviewId',
                    trace := trace st @ [SetProcessing (Some reviewId'), PostCall reviewId' content']\<rparr>;
          st2 = (case postReplyToGoogle outcome of
                   Inr _ \<Rightarrow>
                     st1\<lparr>reviews := map (\<lambda>r. if id' r = reviewId' then r\<lparr>status := replied\<rparr> else r)
                                         (reviews st1)\<rparr>
                 | Inl e \<Rightarrow>
                     st1\<lparr>trace := trace st1 @
                       [Alert ''Failed to post to Google. Check if your API quota is active or if CORS is blocking requests.'']\<rparr>)
      in st2\<lparr>processingId := None, trace := trace st2 @ [SetProcessing None]\<rparr>)"

definition handleReplyChange :: "string \<Rightarrow> string \<Rightarrow> Dashboard \<Rightarrow> Dashboard" where
  "handleReplyChange i txt st =
     st\<lparr>reviews := map (\<lambda>r. if id' r = i then r\<lparr>replyContent := Some txt\<rparr> else r) (reviews st)\<rparr>"

text \<open>
  The controls the action area renders for one review (lines 217-277): nothing
  but the posted reply for a replied review, the generate button for a pending
  one, otherwise the regenerate link, the textarea and the post button. The
  flag of a button is its \<^verbatim>\<open>disabled\<close> attribute.
\<close>

datatype Control = GenerateButton bool | RegenerateLink | ReplyTextarea | PostButton bool

definition action_area :: "string option \<Rightarrow> GoogleReview \<Rightarrow> Control list" where
  "action_area pid review =
     (if status review = replied then []
      else if status review = pending then [GenerateButton (pid = Some (id' review))]
      else [RegenerateLink, ReplyTextarea, PostButton (pid = Some (id' review))])"

text \<open>The text the post button submits: \<^verbatim>\<open>review.replyContent || ''\<close>.\<close>

definition submitted_text :: "GoogleReview \<Rightarrow> string" where
  "submitted_text review = or_default (replyContent review) []"

section \<open>Notions the properties are stated with\<close>

text \<open>
  The data model's invariant on one item: a pending item has no reply text, a
  drafted or replied item has one (possibly empty).
\<close>

definition reply_invariant :: "GoogleReview \<Rightarrow> bool" where
  "reply_invariant r \<longleftrightarrow>
     (status r = pending \<longrightarrow> replyContent r = None) \<and>
     (status r \<in> {drafted, replied} \<longrightarrow> replyContent r \<noteq> None)"

text \<open>
  The reviews a fetch delivers to the mapping (none when it fails or the body
  has no \<^verbatim>\<open>reviews\<close>), and whether a delivered review's reply, if it has one,
  carries its comment.
\<close>

definition payload :: "FetchOutcome \<Rightarrow> ApiReview list" where
  "payload outcome =
     (case outcome of
        FetchRejected msg \<Rightarrow> []
      | FetchResolved response \<Rightarrow>
          (case json response of
             JsonError msg \<Rightarrow> []
           | JsonData None \<Rightarrow> []
           | JsonData (Some rs) \<Rightarrow> rs))"

definition reply_commented :: "ApiReview \<Rightarrow> bool" where
  "reply_commented a = (case reviewReply a of None \<Rightarrow> True | Some rr \<Rightarrow> reply_comment rr \<noteq> None)"

text \<open>
  What one generation attempt does to an item of the targeted id: the draft on
  success, nothing on failure.
\<close>

definition settle :: "AiOutcome \<Rightarrow> GoogleReview \<Rightarrow> GoogleReview" where
  "settle outcome r =
     (case generateReviewReply outcome of
        Inr reply \<Rightarrow> r\<lparr>status := drafted, replyContent := Some reply\<rparr>
      | Inl e \<Rightarrow> r)"

text \<open>The effects of one generation attempt, from taking the lock to releasing it.\<close>

definition attempt_effects :: "AiOutcome \<Rightarrow> GoogleReview \<Rightarrow> Effect list" where
  "attempt_effects outcome review =
     [SetProcessing (Some (id' review)), GenerateCall (id' review)] @
     (case generateReviewReply outcome of Inr reply \<Rightarrow> [] | Inl e \<Rightarrow> [Alert ''AI Generation failed.'']) @
     [SetProcessing None]"

text \<open>The ids the generator was called for, in order.\<close>

fun attempted :: "Effect list \<Rightarrow> string list" where
  "attempted [] = []"
| "attempted (GenerateCall i # es) = i # attempted es"
| "attempted (e # es) = attempted es"

text \<open>A sequence of the three single-item operations, each with the outcome of its service call.\<close>

datatype Operation =
    Generate AiOutcome GoogleReview
  | Publish FetchOutcome string string
  | Edit string string

fun perform :: "Operation \<Rightarrow> Dashboard \<Rightarrow> Dashboard" where
  "perform (Generate outcome review) st = generateReply outcome review st"
| "perform (Publish outcome i txt) st = postReply outcome i txt st"
| "perform (Edit i txt) st = handleReplyChange i txt st"

fun perform_all :: "Operation list \<Rightarrow> Dashboard \<Rightarrow> Dashboard" where
  "perform_all [] st = st"
| "perform_all (operation # rest) st = perform_all rest (perform operation st)"

text \<open>Whether an operation is a generation for the id \<open>i\<close> whose generator call succeeds.\<close>

fun drafts :: "string \<Rightarrow> Operation \<Rightarrow> bool" where
  "drafts i (Generate outcome review) = (id' review = i \<and> \<not> isl (generateReviewReply outcome))"
| "drafts i (Publish outcome j txt) = False"
| "drafts i (Edit j txt) = False"

text \<open>What the loop does to one item: each attempt of the same id settles it in turn.\<close>

fun sweep :: "(nat \<Rightarrow> AiOutcome) \<Rightarrow> nat \<Rightarrow> GoogleReview list \<Rightarrow> GoogleReview \<Rightarrow> GoogleReview" where
  "sweep ai k [] r = r"
| "sweep ai k (a # rest) r = sweep ai (Suc k) rest (if id' r = id' a then settle (ai k) r else r)"

subsection \<open>Concrete inputs\<close>

definition review_of :: "string \<Rightarrow> ReviewStatus \<Rightarrow> string option \<Rightarrow> GoogleReview" where
  "review_of i s rc =
     \<lparr> id' = i, reviewId = i, reviewerName = ''Ann'', reviewerAvatar = None, rating = 5,
       content = ''Great food!'', date = ''1/2/2024'', status = s, replyContent = rc \<rparr>"

definition dashboard_of :: "GoogleReview list \<Rightarrow> Dashboard" where
  "dashboard_of rs = \<lparr> reviews = rs, loading = False, error = None, processingId = None, trace = [] \<rparr>"

definition http_ok :: FetchOutcome where
  "http_ok = FetchResolved \<lparr> ok = True, json = JsonData None \<rparr>"

definition http_failed :: FetchOutcome where
  "http_failed = FetchResolved \<lparr> ok = False, json = JsonData None \<rparr>"

section \<open>What each operation does to the collection and to the trace\<close>

lemma reviews_generateReply:
  "reviews (generateReply outcome review st) =
     map (\<lambda>r. if id' r = id' review then settle outcome r else r) (reviews st)"
  by (cases "generateReviewReply outcome") (simp_all add: generateReply_def settle_def Let_def cong: if_cong)

lemma trace_generateReply:
  "trace (generateReply outcome review st) = trace st @ attempt_effects outcome review"
  by (cases "generateReviewReply outcome") (simp_all add: generateReply_def attempt_effects_def Let_def)

lemma reviews_postReply:
  "reviews (postReply outcome i txt st) =
     (case postReplyToGoogle outcome of
        Inr b \<Rightarrow> map (\<lambda>r. if id' r = i then r\<lparr>status := replied\<rparr> else r) (reviews st)
      | Inl e \<Rightarrow> reviews st)"
  by (cases "postReplyToGoogle outcome") (simp_all add: postReply_def Let_def)

lemma trace_postReply:
  "trace (postReply outcome i txt st) =
     trace st @ [SetProcessing (Some i), PostCall i txt] @
     (case postReplyToGoogle outcome of
        Inr b \<Rightarrow> []
      | Inl e \<Rightarrow> [Alert ''Failed to post to Google. Check if your API quota is active or if CORS is blocking requests.'']) @
     [SetProcessing None]"
  by (cases "postReplyToGoogle outcome") (simp_all add: postReply_def Let_def)

lemma reviews_handleReplyChange:
  "reviews (handleReplyChange i txt st) =
     map (\<lambda>r. if id' r = i then r\<lparr>replyContent := Some txt\<rparr> else r) (reviews st)"
  by (simp add: handleReplyChange_def)

lemma id_settle: "id' (settle outcome r) = id' r"
  by (simp add: settle_def split: sum.splits)

lemma settle_failed: "isl (generateReviewReply outcome) \<Longrightarrow> settle outcome r = r"
  by (auto simp: settle_def split: sum.splits)

lemma postReplyToGoogle_http_ok: "postReplyToGoogle http_ok = Inr True"
  by (simp add: postReplyToGoogle_def http_ok_def)

lemma postReplyToGoogle_http_failed: "postReplyToGoogle http_failed = Inl ''Failed to post reply.''"
  by (simp add: postReplyToGoogle_def http_failed_def)

lemma map_if_frame:
  "length (map (\<lambda>r. if id' r = i then f r else r) rs) = length rs
   \<and> (\<forall>k < length rs. id' (rs ! k) \<noteq> i \<longrightarrow> map (\<lambda>r. if id' r = i then f r else r) rs ! k = rs ! k)
   \<and> (i \<notin> id' ` set rs \<longrightarrow> map (\<lambda>r. if id' r = i then f r else r) rs = rs)"
proof -
  have "map (\<lambda>r. if id' r = i then f r else r) rs = rs" if "i \<notin> id' ` set rs"
    using that by (intro map_idI) auto
  then show ?thesis by simp
qed

lemma indexOf_notin: "x \<notin> set ys \<Longrightarrow> indexOf ys x = - 1"
  by (induction ys) auto

subsection \<open>The invariant, step by step\<close>

lemma inv_toGoogleReview: "reply_commented a \<Longrightarrow> reply_invariant (toGoogleReview fmt a)"
  by (auto simp: reply_invariant_def reply_commented_def toGoogleReview_def split: option.splits)

lemma inv_settle: "reply_invariant r \<Longrightarrow> reply_invariant (settle g r)"
  by (cases "generateReviewReply g") (simp_all add: settle_def reply_invariant_def)

lemma inv_generateReply:
  assumes "\<forall>r \<in> set (reviews st). reply_invariant r"
  shows "\<forall>r \<in> set (reviews (generateReply g review st)). reply_invariant r"
  using assms by (auto simp: reviews_generateReply inv_settle)

lemma inv_generateEach:
  "\<forall>r \<in> set (reviews st). reply_invariant r \<Longrightarrow>
   \<forall>r \<in> set (reviews (generateEach ai k todo st)). reply_invariant r"
proof (induction todo arbitrary: k st)
  case Nil
  then show ?case by simp
next
  case (Cons a todo)
  have "\<forall>r \<in> set (reviews (generateReply (ai k) a st)). reply_invariant r"
    using Cons.prems by (rule inv_generateReply)
  then show ?case by (simp add: Cons.IH)
qed

lemma inv_loadReviews:
  assumes "\<forall>r \<in> set (reviews st). reply_invariant r"
    and "\<forall>a \<in> set (payload f). reply_commented a"
  shows "\<forall>r \<in> set (reviews (loadReviews fmt f st)). reply_invariant r"
proof (cases "fetchGoogleReviews fmt f")
  case (Inl msg)
  then show ?thesis using assms(1) by (simp add: loadReviews_def)
next
  case (Inr data)
  then have "\<forall>r \<in> set data. reply_invariant r"
    using assms(2)
    by (auto simp: fetchGoogleReviews_def payload_def inv_toGoogleReview
        split: FetchOutcome.splits if_splits JsonBody.splits option.splits)
  with Inr show ?thesis by (simp add: loadReviews_def)
qed

lemma inv_postReply:
  assumes "\<forall>r \<in> set (reviews st). reply_invariant r"
    and "isl (postReplyToGoogle p) \<or> (\<forall>r \<in> set (reviews st). id' r = i \<longrightarrow> status r \<noteq> pending)"
  shows "\<forall>r \<in> set (reviews (postReply p i txt st)). reply_invariant r"
proof (cases "postReplyToGoogle p")
  case (Inl e)
  then show ?thesis using assms(1) by (simp add: reviews_postReply)
next
  case (Inr b)
  then have np: "\<forall>r \<in> set (reviews st). id' r = i \<longrightarrow> status r \<noteq> pending"
    using assms(2) by simp
  have "reply_invariant (r\<lparr>status := replied\<rparr>)" if "r \<in> set (reviews st)" "id' r = i" for r
    using that assms(1) np by (cases "status r") (auto simp: reply_invariant_def)
  then show ?thesis using Inr assms(1) by (auto simp: reviews_postReply)
qed

lemma inv_handleReplyChange:
  assumes "\<forall>r \<in> set (reviews st). reply_invariant r"
    and "\<forall>r \<in> set (reviews st). id' r = i \<longrightarrow> status r \<noteq> pending"
  shows "\<forall>r \<in> set (reviews (handleReplyChange i txt st)). reply_invariant r"
proof -
  have "reply_invariant (r\<lparr>replyContent := Some txt\<rparr>)" if "r \<in> set (reviews st)" "id' r = i" for r
    using that assms by (cases "status r") (auto simp: reply_invariant_def)
  then show ?thesis using assms(1) by (auto simp: reviews_handleReplyChange)
qed

subsection \<open>Sequences of operations\<close>

lemma perform_reviews:
  "\<exists>f. reviews (perform operation st) = map f (reviews st)
       \<and> (\<forall>r. id' (f r) = id' r)
       \<and> (\<forall>r. status r = replied \<and> \<not> drafts (id' r) operation \<longrightarrow> status (f r) = replied)"
proof (cases operation)
  case (Generate g review)
  let ?f = "\<lambda>r. if id' r = id' review then settle g r else r"
  have "reviews (perform operation st) = map ?f (reviews st)"
    using Generate by (simp add: reviews_generateReply)
  moreover have "\<forall>r. id' (?f r) = id' r"
    by (simp add: id_settle)
  moreover have "\<forall>r. status r = replied \<and> \<not> drafts (id' r) operation \<longrightarrow> status (?f r) = replied"
    using Generate by (auto simp: settle_failed)
  ultimately show ?thesis by blast
next
  case (Publish p i t)
  show ?thesis
  proof (cases "postReplyToGoogle p")
    case (Inl e)
    then have "reviews (perform operation st) = map (\<lambda>r. r) (reviews st)"
      using Publish by (simp add: reviews_postReply)
    then show ?thesis by blast
  next
    case (Inr b)
    let ?f = "\<lambda>r. if id' r = i then r\<lparr>status := replied\<rparr> else r"
    have "reviews (perform operation st) = map ?f (reviews st)"
      using Publish Inr by (simp add: reviews_postReply)
    moreover have "\<forall>r. id' (?f r) = id' r" by simp
    moreover have "\<forall>r. status r = replied \<and> \<not> drafts (id' r) operation \<longrightarrow> status (?f r) = replied" by simp
    ultimately show ?thesis by blast
  qed
next
  case (Edit i t)
  let ?f = "\<lambda>r. if id' r = i then r\<lparr>replyContent := Some t\<rparr> else r"
  have "reviews (perform operation st) = map ?f (reviews st)"
    using Edit by (simp add: reviews_handleReplyChange)
  moreover have "\<forall>r. id' (?f r) = id' r" by simp
  moreover have "\<forall>r. status r = replied \<and> \<not> drafts (id' r) operation \<longrightarrow> status (?f r) = replied" by simp
  ultimately show ?thesis by blast
qed

lemma perform_keeps_replied:
  assumes "k < length (reviews st)" and "status (reviews st ! k) = replied"
    and "\<not> drafts (id' (reviews st ! k)) operation"
  shows "length (reviews (perform operation st)) = length (reviews st)
     \<and> id' (reviews (perform operation st) ! k) = id' (reviews st ! k)
     \<and> status (reviews (perform operation st) ! k) = replied"
proof -
  obtain f where f: "reviews (perform operation st) = map f (reviews st)"
      "\<forall>r. id' (f r) = id' r"
      "\<forall>r. status r = replied \<and> \<not> drafts (id' r) operation \<longrightarrow> status (f r) = replied"
    using perform_reviews by blast
  show ?thesis using assms f by simp
qed

lemma perform_all_keeps_replied:
  "k < length (reviews st) \<Longrightarrow> status (reviews st ! k) = replied \<Longrightarrow>
   \<forall>operation \<in> set ops. \<not> drafts (id' (reviews st ! k)) operation \<Longrightarrow>
   length (reviews (perform_all ops st)) = length (reviews st)
     \<and> id' (reviews (perform_all ops st) ! k) = id' (reviews st ! k)
     \<and> status (reviews (perform_all ops st) ! k) = replied"
proof (induction ops arbitrary: st)
  case Nil
  then show ?case by simp
next
  case (Cons operation ops)
  have step: "length (reviews (perform operation st)) = length (reviews st)
     \<and> id' (reviews (perform operation st) ! k) = id' (reviews st ! k)
     \<and> status (reviews (perform operation st) ! k) = replied"
    using Cons.prems by (intro perform_keeps_replied) simp_all
  have "length (reviews (perform_all ops (perform operation st))) = length (reviews (perform operation st))
     \<and> id' (reviews (perform_all ops (perform operation st)) ! k) = id' (reviews (perform operation st) ! k)
     \<and> status (reviews (perform_all ops (perform operation st)) ! k) = replied"
    using Cons.prems step by (intro Cons.IH) simp_all
  with step show ?case by simp
qed

subsection \<open>The batch loop\<close>

lemma reviews_generateEach:
  "reviews (generateEach ai k todo st) = map (sweep ai k todo) (reviews st)"
proof (induction todo arbitrary: k st)
  case Nil
  then show ?case by (simp add: map_idI)
next
  case (Cons a todo)
  show ?case by (simp add: Cons.IH reviews_generateReply comp_def)
qed

lemma trace_generateEach:
  "trace (generateEach ai k todo st) =
     trace st @ concat (map (\<lambda>(j, r). attempt_effects (ai j) r) (enumerate k todo))"
  by (induction todo arbitrary: k st) (simp_all add: trace_generateReply)

lemma sweep_other: "id' r \<notin> id' ` set todo \<Longrightarrow> sweep ai k todo r = r"
  by (induction todo arbitrary: k) auto

lemma sweep_nth:
  "distinct (map id' todo) \<Longrightarrow> j < length todo \<Longrightarrow> id' r = id' (todo ! j) \<Longrightarrow>
   sweep ai k todo r = settle (ai (k + j)) r"
proof (induction todo arbitrary: k j)
  case Nil
  then show ?case by simp
next
  case (Cons a todo)
  show ?case
  proof (cases j)
    case 0
    have "id' (settle (ai k) r) \<notin> id' ` set todo"
      using Cons.prems 0 by (simp add: id_settle)
    then show ?thesis using Cons.prems 0 by (simp add: sweep_other)
  next
    case (Suc j')
    have m: "id' (todo ! j') \<in> id' ` set todo"
      using Cons.prems(2) Suc by (intro imageI nth_mem) simp
    have n: "id' a \<notin> id' ` set todo"
      using Cons.prems(1) by simp
    have e: "id' r = id' (todo ! j')"
      using Cons.prems(3) Suc by simp
    from m n e have "id' r \<noteq> id' a" by metis
    moreover have "sweep ai (Suc k) todo r = settle (ai (Suc k + j')) r"
      using Cons.prems Suc by (intro Cons.IH) simp_all
    ultimately show ?thesis using Suc by simp
  qed
qed

lemma filter_nth_count:
  "i < length xs \<Longrightarrow> P (xs ! i) \<Longrightarrow>
   length (filter P (take i xs)) < length (filter P xs)
   \<and> filter P xs ! length (filter P (take i xs)) = xs ! i"
proof -
  assume a: "i < length xs" "P (xs ! i)"
  have "xs = take i xs @ xs ! i # drop (Suc i) xs"
    using a(1) by (rule id_take_nth_drop)
  then have "filter P xs = filter P (take i xs) @ xs ! i # filter P (drop (Suc i) xs)"
    using a(2) by (metis filter.simps(2) filter_append)
  then show ?thesis by (simp add: nth_append)
qed

lemma attempted_append: "attempted (xs @ ys) = attempted xs @ attempted ys"
  by (induction xs rule: attempted.induct) simp_all

lemma attempted_attempt_effects: "attempted (attempt_effects g r) = [id' r]"
  by (simp add: attempt_effects_def split: sum.splits)

lemma attempted_batch:
  "attempted (concat (map (\<lambda>(j, r). attempt_effects (ai j) r) (enumerate k todo))) = map id' todo"
  by (induction todo arbitrary: k) (simp_all add: attempted_append attempted_attempt_effects)

section \<open>The reply generator\<close>

text \<open>
  C9, as the claim states it, fails: when the text-generation call returns an
  empty or missing text, \<open>generateReviewReply\<close> returns normally with a fixed
  placeholder sentence instead of failing.
\<close>

theorem generateReviewReply_empty_counterexample:
  "generateReviewReply (AiResponse (Some [])) = Inr ''Could not generate a reply. Please try again.''
   \<and> generateReviewReply (AiResponse None) = Inr ''Could not generate a reply. Please try again.''"
  by (simp add: generateReviewReply_def or_default_def)

text \<open>
  C9, amended: \<open>generateReviewReply\<close> fails exactly when the underlying
  text-generation call fails; on an empty or missing text it returns the
  placeholder sentence, on any other text that text; it never returns the empty
  text.
\<close>

theorem generateReviewReply_outcomes:
  "(isl (generateReviewReply outcome) \<longleftrightarrow> outcome = AiRejected)
   \<and> (\<forall>txt. generateReviewReply (AiResponse txt) =
          Inr (if txt = None \<or> txt = Some [] then ''Could not generate a reply. Please try again.'' else the txt))
   \<and> generateReviewReply outcome \<noteq> Inr []"
  by (cases outcome) (auto simp: generateReviewReply_def or_default_def split: option.splits)

theorem generateReviewReply_outcomes_witness:
  "isl (generateReviewReply AiRejected)
   \<and> generateReviewReply (AiResponse (Some ''Thanks so much!'')) = Inr ''Thanks so much!''"
  using generateReviewReply_outcomes [of AiRejected] by simp

section \<open>Loading\<close>

text \<open>
  C8: the six names \<open>ZERO\<close> .. \<open>FIVE\<close> map to 0 .. 5, any other value maps to -1,
  and a load whose fetch succeeds stores the mapped items, each rated by that
  mapping, and sets no error: an unrecognised rating does not make the load fail.
\<close>

theorem star_rating_mapping:
  "indexOf star_scale ''ZERO'' = 0 \<and> indexOf star_scale ''ONE'' = 1
   \<and> indexOf star_scale ''TWO'' = 2 \<and> indexOf star_scale ''THREE'' = 3
   \<and> indexOf star_scale ''FOUR'' = 4 \<and> indexOf star_scale ''FIVE'' = 5
   \<and> (s \<notin> set star_scale \<longrightarrow> indexOf star_scale s = - 1)
   \<and> fetchGoogleReviews fmt (FetchResolved \<lparr>ok = True, json = JsonData (Some rs)\<rparr>)
       = Inr (map (toGoogleReview fmt) rs)
   \<and> map rating (map (toGoogleReview fmt) rs) = map (\<lambda>r. indexOf star_scale (starRating r)) rs
   \<and> error (loadReviews fmt (FetchResolved \<lparr>ok = True, json = JsonData (Some rs)\<rparr>) st) = None
   \<and> reviews (loadReviews fmt (FetchResolved \<lparr>ok = True, json = JsonData (Some rs)\<rparr>) st)
       = map (toGoogleReview fmt) rs"
  by (simp add: indexOf_notin fetchGoogleReviews_def loadReviews_def toGoogleReview_def)
     (simp add: star_scale_def)

theorem star_rating_mapping_witness:
  "''SIX'' \<notin> set star_scale
   \<and> map rating (reviews (loadReviews (\<lambda>t. t) (FetchResolved \<lparr>ok = True, json = JsonData (Some
        [\<lparr>name = ''r1'', api_reviewId = ''1'', reviewer = \<lparr>displayName = ''Ann'', profilePhotoUrl = None\<rparr>,
          starRating = ''SIX'', comment = None, createTime = ''2024'', reviewReply = None\<rparr>,
         \<lparr>name = ''r2'', api_reviewId = ''2'', reviewer = \<lparr>displayName = ''Bob'', profilePhotoUrl = None\<rparr>,
          starRating = ''FOUR'', comment = None, createTime = ''2024'', reviewReply = None\<rparr>])\<rparr>)
        (dashboard_of []))) = [- 1, 4]"
  using star_rating_mapping [of "''SIX''" "\<lambda>t. t"
        "[\<lparr>name = ''r1'', api_reviewId = ''1'', reviewer = \<lparr>displayName = ''Ann'', profilePhotoUrl = None\<rparr>,
          starRating = ''SIX'', comment = None, createTime = ''2024'', reviewReply = None\<rparr>,
         \<lparr>name = ''r2'', api_reviewId = ''2'', reviewer = \<lparr>displayName = ''Bob'', profilePhotoUrl = None\<rparr>,
          starRating = ''FOUR'', comment = None, createTime = ''2024'', reviewReply = None\<rparr>]"
        "dashboard_of []"]
  by (simp add: star_scale_def)

text \<open>
  C7: when the fetch fails, \<open>loadReviews\<close> leaves the collection exactly as it
  was and stores the failure's message (or the default message when it is empty)
  in the error cell.
\<close>

theorem loadReviews_failure:
  "fetchGoogleReviews fmt outcome = Inl msg \<Longrightarrow>
     reviews (loadReviews fmt outcome st) = reviews st
     \<and> error (loadReviews fmt outcome st) =
         Some (if msg \<noteq> [] then msg else ''Failed to load reviews. Check console for details.'')
     \<and> error (loadReviews fmt outcome st) \<noteq> None \<and> error (loadReviews fmt outcome st) \<noteq> Some []
     \<and> loading (loadReviews fmt outcome st) = False"
  by (simp add: loadReviews_def)

theorem loadReviews_failure_witness:
  "fetchGoogleReviews (\<lambda>t. t) http_failed = Inl ''Failed to fetch reviews. Ensure API is enabled in GCP.''
   \<and> reviews (loadReviews (\<lambda>t. t) http_failed (dashboard_of [review_of ''r1'' drafted (Some ''a'')]))
       = [review_of ''r1'' drafted (Some ''a'')]
   \<and> error (loadReviews (\<lambda>t. t) http_failed (dashboard_of [review_of ''r1'' drafted (Some ''a'')]))
       = Some ''Failed to fetch reviews. Ensure API is enabled in GCP.''"
proof -
  have f: "fetchGoogleReviews (\<lambda>t. t) http_failed = Inl ''Failed to fetch reviews. Ensure API is enabled in GCP.''"
    by (simp add: fetchGoogleReviews_def http_failed_def)
  show ?thesis
    using f loadReviews_failure [OF f, of "dashboard_of [review_of ''r1'' drafted (Some ''a'')]"]
    by (simp add: dashboard_of_def)
qed

section \<open>Failures of generate and publish\<close>

text \<open>
  C5, as the claim states it, fails in its publish half: a failed \<open>postReply\<close>
  stores nothing, so when the text submitted is not the stored draft, the item
  keeps the stored draft and not the submitted text.
\<close>

theorem publish_failed_other_text_counterexample:
  "postReplyToGoogle http_failed = Inl ''Failed to post reply.''
   \<and> map status (reviews (postReply http_failed ''r1'' ''b'' (dashboard_of [review_of ''r1'' drafted (Some ''a'')]))) = [drafted]
   \<and> map replyContent (reviews (postReply http_failed ''r1'' ''b'' (dashboard_of [review_of ''r1'' drafted (Some ''a'')]))) = [Some ''a'']
   \<and> trace (postReply http_failed ''r1'' ''b'' (dashboard_of [review_of ''r1'' drafted (Some ''a'')]))
       = [SetProcessing (Some ''r1''), PostCall ''r1'' ''b'',
          Alert ''Failed to post to Google. Check if your API quota is active or if CORS is blocking requests.'',
          SetProcessing None]"
  by (simp add: reviews_postReply trace_postReply postReplyToGoogle_http_failed dashboard_of_def review_of_def)

text \<open>
  C5, amended: a generate whose generator call fails, and a publish whose call
  to the platform fails, leave the whole collection unchanged and report the
  failure by one alert. So a pending item stays pending without reply text, and
  a drafted item stays drafted with its stored reply text, whatever text was
  submitted; it holds the submitted text exactly when that was the stored one.
\<close>

theorem failure_changes_nothing:
  "(isl (generateReviewReply g) \<longrightarrow>
      reviews (generateReply g review st) = reviews st
      \<and> trace (generateReply g review st) =
          trace st @ [SetProcessing (Some (id' review)), GenerateCall (id' review),
                      Alert ''AI Generation failed.'', SetProcessing None])
   \<and> (isl (postReplyToGoogle p) \<longrightarrow>
      reviews (postReply p i txt st) = reviews st
      \<and> trace (postReply p i txt st) =
          trace st @ [SetProcessing (Some i), PostCall i txt,
                      Alert ''Failed to post to Google. Check if your API quota is active or if CORS is blocking requests.'',
                      SetProcessing None]
      \<and> (\<forall>k < length (reviews st).
            status (reviews (postReply p i txt st) ! k) = status (reviews st ! k)
            \<and> replyContent (reviews (postReply p i txt st) ! k) = replyContent (reviews st ! k)
            \<and> (replyContent (reviews (postReply p i txt st) ! k) = Some txt
                 \<longleftrightarrow> replyContent (reviews st ! k) = Some txt)))"
proof -
  have "reviews (generateReply g review st) = reviews st" if "isl (generateReviewReply g)"
    using that by (simp add: reviews_generateReply settle_failed cong: if_cong)
  moreover have "trace (generateReply g review st) =
          trace st @ [SetProcessing (Some (id' review)), GenerateCall (id' review),
                      Alert ''AI Generation failed.'', SetProcessing None]" if "isl (generateReviewReply g)"
    using that by (cases "generateReviewReply g") (simp_all add: trace_generateReply attempt_effects_def)
  moreover have same: "reviews (postReply p i txt st) = reviews st" if "isl (postReplyToGoogle p)"
    using that by (cases "postReplyToGoogle p") (simp_all add: reviews_postReply)
  moreover have "trace (postReply p i txt st) =
          trace st @ [SetProcessing (Some i), PostCall i txt,
                      Alert ''Failed to post to Google. Check if your API quota is active or if CORS is blocking requests.'',
                      SetProcessing None]" if "isl (postReplyToGoogle p)"
    using that by (cases "postReplyToGoogle p") (simp_all add: trace_postReply)
  moreover have "\<forall>k < length (reviews st).
            status (reviews (postReply p i txt st) ! k) = status (reviews st ! k)
            \<and> replyContent (reviews (postReply p i txt st) ! k) = replyContent (reviews st ! k)
            \<and> (replyContent (reviews (postReply p i txt st) ! k) = Some txt
                 \<longleftrightarrow> replyContent (reviews st ! k) = Some txt)" if "isl (postReplyToGoogle p)"
    using that by (simp add: same)
  ultimately show ?thesis by blast
qed

theorem failure_changes_nothing_witness:
  "isl (generateReviewReply AiRejected) \<and> isl (postReplyToGoogle http_failed)
   \<and> reviews (generateReply AiRejected (review_of ''r1'' pending None)
        (dashboard_of [review_of ''r1'' pending None])) = [review_of ''r1'' pending None]
   \<and> reviews (postReply http_failed ''r1'' ''my draft''
        (dashboard_of [review_of ''r1'' drafted (Some ''my draft'')])) = [review_of ''r1'' drafted (Some ''my draft'')]
   \<and> reviews (postReply http_failed ''r1'' ''another text''
        (dashboard_of [review_of ''r1'' drafted (Some ''my draft'')])) = [review_of ''r1'' drafted (Some ''my draft'')]"
  using failure_changes_nothing [of AiRejected "review_of ''r1'' pending None"
      "dashboard_of [review_of ''r1'' pending None]" http_failed "''r1''" "''my draft''"]
    failure_changes_nothing [of AiRejected "review_of ''r1'' pending None"
      "dashboard_of [review_of ''r1'' drafted (Some ''my draft'')]" http_failed "''r1''" "''my draft''"]
    failure_changes_nothing [of AiRejected "review_of ''r1'' pending None"
      "dashboard_of [review_of ''r1'' drafted (Some ''my draft'')]" http_failed "''r1''" "''another text''"]
  by (simp add: generateReviewReply_def postReplyToGoogle_http_failed dashboard_of_def)

section \<open>Publishing\<close>

text \<open>
  C6, as the claim states it, fails: \<open>postReply\<close> sends the text it is given but
  writes only the status. Publishing the text \<open>b\<close> for a draft whose stored
  reply is \<open>a\<close> ends with the item replied and its reply text still \<open>a\<close>.
\<close>

theorem publish_other_text_counterexample:
  "map status (reviews (postReply http_ok ''r1'' ''b'' (dashboard_of [review_of ''r1'' drafted (Some ''a'')]))) = [replied]
   \<and> map replyContent (reviews (postReply http_ok ''r1'' ''b'' (dashboard_of [review_of ''r1'' drafted (Some ''a'')]))) = [Some ''a'']
   \<and> trace (postReply http_ok ''r1'' ''b'' (dashboard_of [review_of ''r1'' drafted (Some ''a'')]))
       = [SetProcessing (Some ''r1''), PostCall ''r1'' ''b'', SetProcessing None]"
  by (simp add: reviews_postReply trace_postReply postReplyToGoogle_http_ok dashboard_of_def review_of_def)

text \<open>
  C6, amended: a successful publish sends the given text to the platform and
  sets, in place, the status of every item of that id to replied, changing
  nothing else: the item's reply text stays as stored. It equals the text sent
  exactly when the text sent is the stored draft, which is what the post button
  submits.
\<close>

theorem publish_success:
  assumes "postReplyToGoogle outcome = Inr b"
  shows "reviews (postReply outcome i txt st) =
       map (\<lambda>r. if id' r = i then r\<lparr>status := replied\<rparr> else r) (reviews st)
     \<and> trace (postReply outcome i txt st) = trace st @ [SetProcessing (Some i), PostCall i txt, SetProcessing None]
     \<and> length (reviews (postReply outcome i txt st)) = length (reviews st)
     \<and> (\<forall>k < length (reviews st). id' (reviews st ! k) = i \<longrightarrow>
          reviews (postReply outcome i txt st) ! k = (reviews st ! k)\<lparr>status := replied\<rparr>
          \<and> status (reviews (postReply outcome i txt st) ! k) = replied
          \<and> replyContent (reviews (postReply outcome i txt st) ! k) = replyContent (reviews st ! k)
          \<and> (replyContent (reviews (postReply outcome i txt st) ! k) = Some txt
               \<longleftrightarrow> replyContent (reviews st ! k) = Some txt))
     \<and> (\<forall>k < length (reviews st). id' (reviews st ! k) = i \<and> replyContent (reviews st ! k) \<noteq> None \<longrightarrow>
          replyContent (reviews (postReply outcome i (submitted_text (reviews st ! k)) st) ! k)
            = Some (submitted_text (reviews st ! k)))"
proof -
  have rs: "reviews (postReply outcome i t st) =
      map (\<lambda>r. if id' r = i then r\<lparr>status := replied\<rparr> else r) (reviews st)" for t
    using assms by (simp add: reviews_postReply)
  have tr: "trace (postReply outcome i txt st) =
      trace st @ [SetProcessing (Some i), PostCall i txt, SetProcessing None]"
    using assms by (simp add: trace_postReply)
  have len: "length (reviews (postReply outcome i txt st)) = length (reviews st)"
    by (simp add: rs)
  have at: "reviews (postReply outcome i t st) ! k = (reviews st ! k)\<lparr>status := replied\<rparr>"
    if "k < length (reviews st)" "id' (reviews st ! k) = i" for k t
    using that by (simp add: rs)
  have sub: "replyContent r = Some (submitted_text r)" if "replyContent r \<noteq> None" for r
    using that by (auto simp: submitted_text_def or_default_def)
  have p1: "\<forall>k < length (reviews st). id' (reviews st ! k) = i \<longrightarrow>
          reviews (postReply outcome i txt st) ! k = (reviews st ! k)\<lparr>status := replied\<rparr>
          \<and> status (reviews (postReply outcome i txt st) ! k) = replied
          \<and> replyContent (reviews (postReply outcome i txt st) ! k) = replyContent (reviews st ! k)
          \<and> (replyContent (reviews (postReply outcome i txt st) ! k) = Some txt
               \<longleftrightarrow> replyContent (reviews st ! k) = Some txt)"
    by (simp add: at)
  have p2: "\<forall>k < length (reviews st). id' (reviews st ! k) = i \<and> replyContent (reviews st ! k) \<noteq> None \<longrightarrow>
          replyContent (reviews (postReply outcome i (submitted_text (reviews st ! k)) st) ! k)
            = Some (submitted_text (reviews st ! k))"
  proof (intro allI impI)
    fix k
    assume k: "k < length (reviews st)"
      and h: "id' (reviews st ! k) = i \<and> replyContent (reviews st ! k) \<noteq> None"
    have "replyContent (reviews (postReply outcome i (submitted_text (reviews st ! k)) st) ! k)
        = replyContent (reviews st ! k)"
      using k h by (simp add: at)
    also have "\<dots> = Some (submitted_text (reviews st ! k))"
      using h by (intro sub) simp
    finally show "replyContent (reviews (postReply outcome i (submitted_text (reviews st ! k)) st) ! k)
        = Some (submitted_text (reviews st ! k))" .
  qed
  from rs [of "txt"] tr len p1 p2 show ?thesis by blast
qed

theorem publish_success_witness:
  "postReplyToGoogle http_ok = Inr True
   \<and> reviews (postReply http_ok ''r1'' ''a''
        (dashboard_of [review_of ''r1'' drafted (Some ''a''), review_of ''r2'' drafted (Some ''c'')]))
      = [review_of ''r1'' replied (Some ''a''), review_of ''r2'' drafted (Some ''c'')]
   \<and> reviews (postReply http_ok ''r1'' ''b''
        (dashboard_of [review_of ''r1'' drafted (Some ''a''), review_of ''r2'' drafted (Some ''c'')]))
      = [review_of ''r1'' replied (Some ''a''), review_of ''r2'' drafted (Some ''c'')]"
  using postReplyToGoogle_http_ok
    publish_success [OF postReplyToGoogle_http_ok, of "''r1''" "''a''"
      "dashboard_of [review_of ''r1'' drafted (Some ''a''), review_of ''r2'' drafted (Some ''c'')]"]
    publish_success [OF postReplyToGoogle_http_ok, of "''r1''" "''b''"
      "dashboard_of [review_of ''r1'' drafted (Some ''a''), review_of ''r2'' drafted (Some ''c'')]"]
  by (simp add: dashboard_of_def review_of_def)

text \<open>
  C4, as the claim states it, fails: \<open>postReply\<close> has no guard on the status.
  Publishing for a pending item calls the platform and, when the call succeeds,
  makes the item replied with no reply text.
\<close>

theorem publish_pending_counterexample:
  "map status (reviews (postReply http_ok ''r1'' [] (dashboard_of [review_of ''r1'' pending None]))) = [replied]
   \<and> map replyContent (reviews (postReply http_ok ''r1'' [] (dashboard_of [review_of ''r1'' pending None]))) = [None]
   \<and> trace (postReply http_ok ''r1'' [] (dashboard_of [review_of ''r1'' pending None]))
       = [SetProcessing (Some ''r1''), PostCall ''r1'' [], SetProcessing None]"
  by (simp add: reviews_postReply trace_postReply postReplyToGoogle_http_ok dashboard_of_def review_of_def)

text \<open>
  C4, amended: \<open>postReply\<close> calls the platform whatever the item's status is
  and, when the call succeeds, sets every item of that id to replied; the only
  gate is the view, which renders the post button for drafted items only.
\<close>

theorem publish_unguarded:
  "(\<exists>rest. trace (postReply outcome i txt st) = trace st @ SetProcessing (Some i) # PostCall i txt # rest)
   \<and> (\<not> isl (postReplyToGoogle outcome) \<longrightarrow>
        reviews (postReply outcome i txt st) =
          map (\<lambda>r. if id' r = i then r\<lparr>status := replied\<rparr> else r) (reviews st))
   \<and> ((\<exists>d. PostButton d \<in> set (action_area pid r)) \<longleftrightarrow> status r = drafted)"
proof -
  have "\<exists>rest. trace (postReply outcome i txt st) = trace st @ SetProcessing (Some i) # PostCall i txt # rest"
    by (simp add: trace_postReply)
  moreover have "reviews (postReply outcome i txt st) =
          map (\<lambda>r. if id' r = i then r\<lparr>status := replied\<rparr> else r) (reviews st)"
    if "\<not> isl (postReplyToGoogle outcome)"
    using that by (cases "postReplyToGoogle outcome") (simp_all add: reviews_postReply)
  moreover have "(\<exists>d. PostButton d \<in> set (action_area pid r)) \<longleftrightarrow> status r = drafted"
    by (cases "status r") (simp_all add: action_area_def)
  ultimately show ?thesis by blast
qed

theorem publish_unguarded_witness:
  "reviews (postReply http_ok ''r1'' ''x'' (dashboard_of [review_of ''r1'' pending None, review_of ''r2'' pending None]))
     = [review_of ''r1'' replied None, review_of ''r2'' pending None]"
  using publish_unguarded [of http_ok "''r1''" "''x''" "dashboard_of [review_of ''r1'' pending None, review_of ''r2'' pending None]"]
  by (simp add: postReplyToGoogle_http_ok dashboard_of_def review_of_def)

section \<open>Frame\<close>

text \<open>
  C10: generate, publish and edit (whatever the outcome of the service call, so
  in particular on success) keep the length of the collection and every item
  whose id differs from the targeted id; when no item has the targeted id the
  collection is unchanged, and on success neither operation alerts.
\<close>

theorem only_targeted_id_changes:
  "(let rs' = reviews (generateReply g review st) in
      length rs' = length (reviews st)
      \<and> (\<forall>k < length (reviews st). id' (reviews st ! k) \<noteq> id' review \<longrightarrow> rs' ! k = reviews st ! k)
      \<and> (id' review \<notin> id' ` set (reviews st) \<longrightarrow> rs' = reviews st))
   \<and> (let rs' = reviews (postReply p i txt st) in
      length rs' = length (reviews st)
      \<and> (\<forall>k < length (reviews st). id' (reviews st ! k) \<noteq> i \<longrightarrow> rs' ! k = reviews st ! k)
      \<and> (i \<notin> id' ` set (reviews st) \<longrightarrow> rs' = reviews st))
   \<and> (let rs' = reviews (handleReplyChange i txt st) in
      length rs' = length (reviews st)
      \<and> (\<forall>k < length (reviews st). id' (reviews st ! k) \<noteq> i \<longrightarrow> rs' ! k = reviews st ! k)
      \<and> (i \<notin> id' ` set (reviews st) \<longrightarrow> rs' = reviews st))
   \<and> (\<not> isl (generateReviewReply g) \<longrightarrow>
        trace (generateReply g review st) =
          trace st @ [SetProcessing (Some (id' review)), GenerateCall (id' review), SetProcessing None])
   \<and> (\<not> isl (postReplyToGoogle p) \<longrightarrow>
        trace (postReply p i txt st) = trace st @ [SetProcessing (Some i), PostCall i txt, SetProcessing None])
   \<and> trace (handleReplyChange i txt st) = trace st"
proof -
  have g: "let rs' = reviews (generateReply g review st) in
      length rs' = length (reviews st)
      \<and> (\<forall>k < length (reviews st). id' (reviews st ! k) \<noteq> id' review \<longrightarrow> rs' ! k = reviews st ! k)
      \<and> (id' review \<notin> id' ` set (reviews st) \<longrightarrow> rs' = reviews st)"
    unfolding Let_def reviews_generateReply by (rule map_if_frame)
  have p: "let rs' = reviews (postReply p i txt st) in
      length rs' = length (reviews st)
      \<and> (\<forall>k < length (reviews st). id' (reviews st ! k) \<noteq> i \<longrightarrow> rs' ! k = reviews st ! k)
      \<and> (i \<notin> id' ` set (reviews st) \<longrightarrow> rs' = reviews st)"
  proof (cases "postReplyToGoogle p")
    case (Inl e)
    then show ?thesis by (simp add: reviews_postReply)
  next
    case (Inr b)
    then have "reviews (postReply p i txt st) = map (\<lambda>r. if id' r = i then r\<lparr>status := replied\<rparr> else r) (reviews st)"
      by (simp add: reviews_postReply)
    then show ?thesis unfolding Let_def using map_if_frame [of i "\<lambda>r. r\<lparr>status := replied\<rparr>" "reviews st"] by simp
  qed
  have h: "let rs' = reviews (handleReplyChange i txt st) in
      length rs' = length (reviews st)
      \<and> (\<forall>k < length (reviews st). id' (reviews st ! k) \<noteq> i \<longrightarrow> rs' ! k = reviews st ! k)
      \<and> (i \<notin> id' ` set (reviews st) \<longrightarrow> rs' = reviews st)"
    unfolding Let_def reviews_handleReplyChange by (rule map_if_frame)
  have tg: "trace (generateReply g review st) =
          trace st @ [SetProcessing (Some (id' review)), GenerateCall (id' review), SetProcessing None]"
    if "\<not> isl (generateReviewReply g)"
    using that by (cases "generateReviewReply g") (simp_all add: trace_generateReply attempt_effects_def)
  have tp: "trace (postReply p i txt st) = trace st @ [SetProcessing (Some i), PostCall i txt, SetProcessing None]"
    if "\<not> isl (postReplyToGoogle p)"
    using that by (cases "postReplyToGoogle p") (simp_all add: trace_postReply)
  have th: "trace (handleReplyChange i txt st) = trace st"
    by (simp add: handleReplyChange_def)
  from g p h tg tp th show ?thesis by blast
qed

theorem only_targeted_id_changes_witness:
  "reviews (generateReply (AiResponse (Some ''Thanks!'')) (review_of ''r9'' pending None)
      (dashboard_of [review_of ''r1'' pending None, review_of ''r2'' replied (Some ''ok'')]))
    = [review_of ''r1'' pending None, review_of ''r2'' replied (Some ''ok'')]
   \<and> reviews (postReply http_ok ''r1'' ''x''
      (dashboard_of [review_of ''r1'' drafted (Some ''x''), review_of ''r2'' drafted (Some ''y'')])) ! 1
    = review_of ''r2'' drafted (Some ''y'')
   \<and> reviews (handleReplyChange ''r9'' ''x'' (dashboard_of [review_of ''r1'' drafted (Some ''x'')]))
    = [review_of ''r1'' drafted (Some ''x'')]"
  using only_targeted_id_changes [of "AiResponse (Some ''Thanks!'')" "review_of ''r9'' pending None"
      "dashboard_of [review_of ''r1'' pending None, review_of ''r2'' replied (Some ''ok'')]" http_ok "''r9''" "''x''"]
    only_targeted_id_changes [of "AiResponse (Some ''Thanks!'')" "review_of ''r9'' pending None"
      "dashboard_of [review_of ''r1'' drafted (Some ''x''), review_of ''r2'' drafted (Some ''y'')]" http_ok "''r1''" "''x''"]
    only_targeted_id_changes [of "AiResponse (Some ''Thanks!'')" "review_of ''r9'' pending None"
      "dashboard_of [review_of ''r1'' drafted (Some ''x'')]" http_ok "''r9''" "''x''"]
  by (simp add: dashboard_of_def review_of_def Let_def)

section \<open>The batch draft\<close>

text \<open>
  C1: \<open>autoGenerateAll\<close> attempts exactly the items that are pending when it
  is called, in their order, one after the other: its trace is the
  concatenation of the attempts' effects, each from taking the processing lock
  to releasing it, and a failed attempt only adds its alert. With ids unique in
  the collection (the data model's key), the item at each position ends as its
  own attempt settles it (drafted with the generated text on success, unchanged
  on failure) when it was pending, and is untouched when it was not.
\<close>

theorem autoGenerateAll_snapshot:
  "trace (autoGenerateAll ai st) =
       trace st @ concat (map (\<lambda>(j, r). attempt_effects (ai j) r)
                            (enumerate 0 (filter (\<lambda>r. status r = pending) (reviews st))))
   \<and> attempted (trace (autoGenerateAll ai st)) =
       attempted (trace st) @ map id' (filter (\<lambda>r. status r = pending) (reviews st))
   \<and> length (reviews (autoGenerateAll ai st)) = length (reviews st)
   \<and> (distinct (map id' (reviews st)) \<longrightarrow>
        (\<forall>i < length (reviews st).
           reviews (autoGenerateAll ai st) ! i =
             (if status (reviews st ! i) = pending
              then settle (ai (length (filter (\<lambda>r. status r = pending) (take i (reviews st))))) (reviews st ! i)
              else reviews st ! i)))"
proof -
  let ?P = "\<lambda>r. status r = pending"
  let ?rs = "reviews st"
  let ?ps = "filter ?P ?rs"
  have rv: "reviews (autoGenerateAll ai st) = map (sweep ai 0 ?ps) ?rs"
    by (simp add: autoGenerateAll_def reviews_generateEach)
  have tr: "trace (autoGenerateAll ai st) =
       trace st @ concat (map (\<lambda>(j, r). attempt_effects (ai j) r) (enumerate 0 ?ps))"
    by (simp add: autoGenerateAll_def trace_generateEach)
  have at: "attempted (trace (autoGenerateAll ai st)) = attempted (trace st) @ map id' ?ps"
    by (simp only: tr attempted_append attempted_batch)
  have len: "length (reviews (autoGenerateAll ai st)) = length ?rs"
    by (simp add: rv)
  have item: "reviews (autoGenerateAll ai st) ! i =
      (if ?P (?rs ! i) then settle (ai (length (filter ?P (take i ?rs)))) (?rs ! i) else ?rs ! i)"
    if d: "distinct (map id' ?rs)" and i: "i < length ?rs" for i
  proof (cases "?P (?rs ! i)")
    case True
    let ?j = "length (filter ?P (take i ?rs))"
    have dps: "distinct (map id' ?ps)"
      using d by (rule distinct_map_filter)
    have j: "?j < length ?ps" "?ps ! ?j = ?rs ! i"
      using filter_nth_count [of i ?rs ?P] i True by simp_all
    have "sweep ai 0 ?ps (?rs ! i) = settle (ai (0 + ?j)) (?rs ! i)"
      using dps j(1) by (rule sweep_nth) (simp add: j(2))
    then show ?thesis using True i by (simp add: rv)
  next
    case False
    have inj: "inj_on id' (set ?rs)"
      using d by (simp add: distinct_map)
    have "id' (?rs ! i) \<notin> id' ` set ?ps"
    proof
      assume "id' (?rs ! i) \<in> id' ` set ?ps"
      then obtain p where p: "p \<in> set ?ps" "id' p = id' (?rs ! i)" by auto
      then have "p \<in> set ?rs" "?P p" by simp_all
      moreover have "?rs ! i \<in> set ?rs" using i by simp
      ultimately have "p = ?rs ! i" using inj p(2) by (auto dest: inj_onD)
      with \<open>?P p\<close> False show False by simp
    qed
    then show ?thesis using False i by (simp add: rv sweep_other)
  qed
  from tr at len item show ?thesis by blast
qed

theorem autoGenerateAll_snapshot_witness:
  "reviews (autoGenerateAll (\<lambda>k. if k = 0 then AiResponse (Some ''Thanks A!'') else AiRejected)
      (dashboard_of [review_of ''c'' replied (Some ''posted''), review_of ''a'' pending None,
                     review_of ''d'' drafted (Some ''draft''), review_of ''b'' pending None]))
    = [review_of ''c'' replied (Some ''posted''), review_of ''a'' drafted (Some ''Thanks A!''),
       review_of ''d'' drafted (Some ''draft''), review_of ''b'' pending None]
   \<and> attempted (trace (autoGenerateAll (\<lambda>k. if k = 0 then AiResponse (Some ''Thanks A!'') else AiRejected)
      (dashboard_of [review_of ''c'' replied (Some ''posted''), review_of ''a'' pending None,
                     review_of ''d'' drafted (Some ''draft''), review_of ''b'' pending None]))) = [''a'', ''b'']"
proof -
  let ?st = "dashboard_of [review_of ''c'' replied (Some ''posted''), review_of ''a'' pending None,
                     review_of ''d'' drafted (Some ''draft''), review_of ''b'' pending None]"
  let ?ai = "\<lambda>k::nat. if k = 0 then AiResponse (Some ''Thanks A!'') else AiRejected"
  have d: "distinct (map id' (reviews ?st))"
    by (simp add: dashboard_of_def review_of_def)
  note t = autoGenerateAll_snapshot [of ?ai ?st]
  have len: "length (reviews (autoGenerateAll ?ai ?st)) = 4"
    using t by (simp add: dashboard_of_def)
  have n: "\<forall>i < 4. reviews (autoGenerateAll ?ai ?st) ! i =
            (if status (reviews ?st ! i) = pending
             then settle (?ai (length (filter (\<lambda>r. status r = pending) (take i (reviews ?st))))) (reviews ?st ! i)
             else reviews ?st ! i)"
    using t d by (simp add: dashboard_of_def)
  have "reviews (autoGenerateAll ?ai ?st) ! 0 = review_of ''c'' replied (Some ''posted'')"
    using n by (simp add: dashboard_of_def review_of_def)
  moreover have "reviews (autoGenerateAll ?ai ?st) ! 1 = review_of ''a'' drafted (Some ''Thanks A!'')"
    using n by (simp add: dashboard_of_def review_of_def settle_def generateReviewReply_def or_default_def)
  moreover have "reviews (autoGenerateAll ?ai ?st) ! 2 = review_of ''d'' drafted (Some ''draft'')"
    using n by (simp add: dashboard_of_def review_of_def)
  moreover have "reviews (autoGenerateAll ?ai ?st) ! 3 = review_of ''b'' pending None"
    using n by (simp add: dashboard_of_def review_of_def settle_def generateReviewReply_def)
  ultimately have "reviews (autoGenerateAll ?ai ?st) =
      [review_of ''c'' replied (Some ''posted''), review_of ''a'' drafted (Some ''Thanks A!''),
       review_of ''d'' drafted (Some ''draft''), review_of ''b'' pending None]"
    using len by (intro nth_equalityI) (auto simp: less_Suc_eq numeral_eq_Suc)
  moreover have "attempted (trace (autoGenerateAll ?ai ?st)) = [''a'', ''b'']"
    using conjunct1 [OF conjunct2 [OF t]] by (simp add: dashboard_of_def review_of_def)
  ultimately show ?thesis by simp
qed

section \<open>The invariant of the data model\<close>

text \<open>
  C2, as the claim states it, fails: \<open>handleReplyChange\<close> on a pending item
  gives it a reply text and leaves it pending, a successful \<open>postReply\<close> on a
  pending item makes it replied with no reply text, and a load whose payload
  has a reply object without a comment stores a replied item with no reply text.
\<close>

theorem edit_pending_counterexample:
  "reply_invariant (review_of ''r1'' pending None)
   \<and> map status (reviews (handleReplyChange ''r1'' ''hello'' (dashboard_of [review_of ''r1'' pending None]))) = [pending]
   \<and> map replyContent (reviews (handleReplyChange ''r1'' ''hello'' (dashboard_of [review_of ''r1'' pending None]))) = [Some ''hello'']
   \<and> \<not> reply_invariant (hd (reviews (handleReplyChange ''r1'' ''hello'' (dashboard_of [review_of ''r1'' pending None]))))
   \<and> \<not> reply_invariant (hd (reviews (postReply http_ok ''r1'' [] (dashboard_of [review_of ''r1'' pending None]))))
   \<and> map status (reviews (loadReviews (\<lambda>t. t) (FetchResolved \<lparr>ok = True, json = JsonData (Some
        [\<lparr>name = ''r1'', api_reviewId = ''1'', reviewer = \<lparr>displayName = ''Ann'', profilePhotoUrl = None\<rparr>,
          starRating = ''FIVE'', comment = Some ''Great food!'', createTime = ''2024'',
          reviewReply = Some (ReviewReply None)\<rparr>])\<rparr>) (dashboard_of []))) = [replied]
   \<and> map replyContent (reviews (loadReviews (\<lambda>t. t) (FetchResolved \<lparr>ok = True, json = JsonData (Some
        [\<lparr>name = ''r1'', api_reviewId = ''1'', reviewer = \<lparr>displayName = ''Ann'', profilePhotoUrl = None\<rparr>,
          starRating = ''FIVE'', comment = Some ''Great food!'', createTime = ''2024'',
          reviewReply = Some (ReviewReply None)\<rparr>])\<rparr>) (dashboard_of []))) = [None]
   \<and> \<not> reply_invariant (hd (reviews (loadReviews (\<lambda>t. t) (FetchResolved \<lparr>ok = True, json = JsonData (Some
        [\<lparr>name = ''r1'', api_reviewId = ''1'', reviewer = \<lparr>displayName = ''Ann'', profilePhotoUrl = None\<rparr>,
          starRating = ''FIVE'', comment = Some ''Great food!'', createTime = ''2024'',
          reviewReply = Some (ReviewReply None)\<rparr>])\<rparr>) (dashboard_of []))))"
  by (simp add: reviews_handleReplyChange reviews_postReply postReplyToGoogle_http_ok
      loadReviews_def fetchGoogleReviews_def toGoogleReview_def
      dashboard_of_def review_of_def reply_invariant_def)

text \<open>
  C2, amended: if every item satisfies the invariant, then it does so after a
  generate and a batch draft, whatever their outcome, after a publish whose
  call fails, and after a load that fails or whose payload gives every reply
  its comment; after a publish that succeeds and after an edit it does so when
  no item of the targeted id is pending, the only case the view offers (it
  renders the textarea and the post button for drafted items only).
\<close>

theorem reply_invariant_preserved:
  assumes "\<forall>r \<in> set (reviews st). reply_invariant r"
  shows "((\<forall>a \<in> set (payload f). reply_commented a) \<longrightarrow>
          (\<forall>r \<in> set (reviews (loadReviews fmt f st)). reply_invariant r))
     \<and> (isl (fetchGoogleReviews fmt f) \<longrightarrow>
          (\<forall>r \<in> set (reviews (loadReviews fmt f st)). reply_invariant r))
     \<and> (\<forall>r \<in> set (reviews (generateReply g review st)). reply_invariant r)
     \<and> (\<forall>r \<in> set (reviews (autoGenerateAll ai st)). reply_invariant r)
     \<and> (isl (postReplyToGoogle p) \<longrightarrow> (\<forall>r \<in> set (reviews (postReply p i txt st)). reply_invariant r))
     \<and> ((\<forall>r \<in> set (reviews st). id' r = i \<longrightarrow> status r \<noteq> pending) \<longrightarrow>
          (\<forall>r \<in> set (reviews (postReply p i txt st)). reply_invariant r)
          \<and> (\<forall>r \<in> set (reviews (handleReplyChange i txt st)). reply_invariant r))
     \<and> ((\<exists>d. PostButton d \<in> set (action_area pid shown)) \<or> ReplyTextarea \<in> set (action_area pid shown)
          \<longrightarrow> status shown = drafted)"
proof -
  have a: "\<forall>r \<in> set (reviews (autoGenerateAll ai st)). reply_invariant r"
    unfolding autoGenerateAll_def Let_def using assms by (rule inv_generateEach)
  have lf: "\<forall>r \<in> set (reviews (loadReviews fmt f st)). reply_invariant r"
    if "isl (fetchGoogleReviews fmt f)"
    using that assms by (cases "fetchGoogleReviews fmt f") (simp_all add: loadReviews_def)
  have u: "(\<exists>d. PostButton d \<in> set (action_area pid shown)) \<or> ReplyTextarea \<in> set (action_area pid shown)
          \<longrightarrow> status shown = drafted"
    by (cases "status shown") (simp_all add: action_area_def)
  show ?thesis
    using inv_loadReviews [OF assms] lf inv_generateReply [OF assms] a u
      inv_postReply [OF assms] inv_handleReplyChange [OF assms]
    by blast
qed

theorem reply_invariant_preserved_witness:
  "list_all reply_invariant (reviews (dashboard_of [review_of ''r1'' drafted (Some ''a''), review_of ''r2'' pending None]))
   \<and> list_all reply_invariant (reviews (postReply http_ok ''r1'' ''a''
        (dashboard_of [review_of ''r1'' drafted (Some ''a''), review_of ''r2'' pending None])))
   \<and> list_all reply_invariant (reviews (handleReplyChange ''r1'' ''b''
        (dashboard_of [review_of ''r1'' drafted (Some ''a''), review_of ''r2'' pending None])))
   \<and> list_all reply_invariant (reviews (autoGenerateAll (\<lambda>k. AiRejected)
        (dashboard_of [review_of ''r1'' drafted (Some ''a''), review_of ''r2'' pending None])))
   \<and> list_all reply_commented (payload (FetchResolved \<lparr>ok = True, json = JsonData (Some
        [\<lparr>name = ''r3'', api_reviewId = ''3'', reviewer = \<lparr>displayName = ''Ann'', profilePhotoUrl = None\<rparr>,
          starRating = ''FIVE'', comment = Some ''Great food!'', createTime = ''2024'',
          reviewReply = Some (ReviewReply (Some ''Thank you!''))\<rparr>])\<rparr>))
   \<and> list_all reply_invariant (reviews (loadReviews (\<lambda>t. t) (FetchResolved \<lparr>ok = True, json = JsonData (Some
        [\<lparr>name = ''r3'', api_reviewId = ''3'', reviewer = \<lparr>displayName = ''Ann'', profilePhotoUrl = None\<rparr>,
          starRating = ''FIVE'', comment = Some ''Great food!'', createTime = ''2024'',
          reviewReply = Some (ReviewReply (Some ''Thank you!''))\<rparr>])\<rparr>)
        (dashboard_of [review_of ''r1'' drafted (Some ''a''), review_of ''r2'' pending None])))"
proof -
  let ?st = "dashboard_of [review_of ''r1'' drafted (Some ''a''), review_of ''r2'' pending None]"
  let ?f = "FetchResolved \<lparr>ok = True, json = JsonData (Some
        [\<lparr>name = ''r3'', api_reviewId = ''3'', reviewer = \<lparr>displayName = ''Ann'', profilePhotoUrl = None\<rparr>,
          starRating = ''FIVE'', comment = Some ''Great food!'', createTime = ''2024'',
          reviewReply = Some (ReviewReply (Some ''Thank you!''))\<rparr>])\<rparr>"
  have h: "\<forall>r \<in> set (reviews ?st). reply_invariant r"
    by (simp add: dashboard_of_def review_of_def reply_invariant_def)
  have n: "\<forall>r \<in> set (reviews ?st). id' r = ''r1'' \<longrightarrow> status r \<noteq> pending"
    by (simp add: dashboard_of_def review_of_def)
  have c: "\<forall>a \<in> set (payload ?f). reply_commented a"
    by (simp add: payload_def reply_commented_def)
  show ?thesis
    using h n c reply_invariant_preserved [OF h, of ?f "\<lambda>t. t" AiRejected "review_of ''r1'' drafted (Some ''a'')"
        "\<lambda>k. AiRejected" http_ok "''r1''" "''a''" None]
      reply_invariant_preserved [OF h, of ?f "\<lambda>t. t" AiRejected "review_of ''r1'' drafted (Some ''a'')"
        "\<lambda>k. AiRejected" http_ok "''r1''" "''b''" None]
    by (simp add: list_all_iff)
qed

section \<open>The replied state\<close>

text \<open>
  C3, as the claim states it, fails: \<open>generateReply\<close> has no guard on the
  status, so a generation that succeeds for the id of a replied item makes it
  drafted with the new text.
\<close>

theorem regenerate_replied_counterexample:
  "map status (reviews (generateReply (AiResponse (Some ''Hi again''))
      (review_of ''r1'' replied (Some ''posted''))
      (dashboard_of [review_of ''r1'' replied (Some ''posted'')]))) = [drafted]
   \<and> map replyContent (reviews (generateReply (AiResponse (Some ''Hi again''))
      (review_of ''r1'' replied (Some ''posted''))
      (dashboard_of [review_of ''r1'' replied (Some ''posted'')]))) = [Some ''Hi again'']"
  by (simp add: reviews_generateReply settle_def generateReviewReply_def or_default_def
      dashboard_of_def review_of_def)

text \<open>
  C3, amended: a replied item stays replied, at its position and with its id,
  through every sequence of generate, publish and edit operations in which no
  successful generation is aimed at its id; and the view renders no control for
  a replied item.
\<close>

theorem replied_stays_replied:
  assumes "k < length (reviews st)" and "status (reviews st ! k) = replied"
    and "\<forall>operation \<in> set ops. \<not> drafts (id' (reviews st ! k)) operation"
  shows "length (reviews (perform_all ops st)) = length (reviews st)
     \<and> id' (reviews (perform_all ops st) ! k) = id' (reviews st ! k)
     \<and> status (reviews (perform_all ops st) ! k) = replied
     \<and> action_area pid (reviews (perform_all ops st) ! k) = []"
proof -
  have "length (reviews (perform_all ops st)) = length (reviews st)
     \<and> id' (reviews (perform_all ops st) ! k) = id' (reviews st ! k)
     \<and> status (reviews (perform_all ops st) ! k) = replied"
    using assms by (rule perform_all_keeps_replied)
  then show ?thesis by (simp add: action_area_def)
qed

theorem replied_stays_replied_witness:
  "map status (reviews (perform_all
      [Publish http_ok ''r1'' ''x'', Edit ''r1'' ''y'', Generate AiRejected (review_of ''r1'' replied (Some ''posted'')),
       Generate (AiResponse (Some ''Hi'')) (review_of ''r2'' pending None)]
      (dashboard_of [review_of ''r1'' replied (Some ''posted''), review_of ''r2'' pending None]))) ! 0 = replied"
proof -
  let ?st = "dashboard_of [review_of ''r1'' replied (Some ''posted''), review_of ''r2'' pending None]"
  let ?ops = "[Publish http_ok ''r1'' ''x'', Edit ''r1'' ''y'', Generate AiRejected (review_of ''r1'' replied (Some ''posted'')),
       Generate (AiResponse (Some ''Hi'')) (review_of ''r2'' pending None)]"
  have a: "0 < length (reviews ?st)" by (simp add: dashboard_of_def)
  have b: "status (reviews ?st ! 0) = replied" by (simp add: dashboard_of_def review_of_def)
  have c: "\<forall>operation \<in> set ?ops. \<not> drafts (id' (reviews ?st ! 0)) operation"
    by (simp add: dashboard_of_def review_of_def generateReviewReply_def)
  have "status (reviews (perform_all ?ops ?st) ! 0) = replied"
    using replied_stays_replied [OF a b c] by simp
  moreover have "length (reviews (perform_all ?ops ?st)) = 2"
    using replied_stays_replied [OF a b c] by (simp add: dashboard_of_def)
  ultimately show ?thesis by simp
qed

end
